theory Spec2Isabelle
  imports Main "HOL-Library.Word"
begin

section \<open>JavaScript strings\<close>

text \<open>
  A JavaScript string is a sequence of UTF-16 code units; \<open>length\<close>, \<open>slice\<close> and the
  regular expressions of the source (which have no \<open>u\<close> flag) all count code units, and so
  do the positions of text inside a ProseMirror document.
\<close>

type_synonym jsstring = "16 word list"

text \<open>An ASCII literal as a JavaScript string.\<close>

definition js :: "string \<Rightarrow> jsstring" where
  "js s = map (\<lambda>c. of_nat (of_char c)) s"

text \<open>The character class \<open>[\r\n]\<close>.\<close>

definition isLineBreak :: "16 word \<Rightarrow> bool" where
  "isLineBreak c = (c = 0x0A \<or> c = 0x0D)"

text \<open>The character class \<open>\s\<close> of ECMAScript: white space and line terminators.\<close>

definition isSpaceClass :: "16 word \<Rightarrow> bool" where
  "isSpaceClass c =
     (c = 0x09 \<or> c = 0x0A \<or> c = 0x0B \<or> c = 0x0C \<or> c = 0x0D \<or> c = 0x20 \<or> c = 0xA0
      \<or> c = 0x1680 \<or> (0x2000 \<le> c \<and> c \<le> 0x200A) \<or> c = 0x2028 \<or> c = 0x2029
      \<or> c = 0x202F \<or> c = 0x205F \<or> c = 0x3000 \<or> c = 0xFEFF)"

text \<open>
  \<open>s.replace(/C{k,}/g, " ")\<close> for a character class \<open>C\<close>: the scan goes left to right, the
  quantifier is greedy, so every maximal run of \<open>C\<close> of length at least \<open>k\<close> becomes one
  space and a shorter run stays as it is.
\<close>

function replaceRuns :: "(16 word \<Rightarrow> bool) \<Rightarrow> nat \<Rightarrow> jsstring \<Rightarrow> jsstring" where
  "replaceRuns P k [] = []"
| "replaceRuns P k (c # s) =
     (if P c
      then (if k \<le> Suc (length (takeWhile P s)) then [0x20] else c # takeWhile P s)
             @ replaceRuns P k (dropWhile P s)
      else c # replaceRuns P k s)"
  by pat_completeness auto
termination
  by (relation "measure (\<lambda>(P, k, s). length s)")
     (auto simp: length_dropWhile_le less_Suc_eq_le)

text \<open>\<open>.replace(/[\r\n]+/g, " ").replace(/\s{2,}/g, " ")\<close>, as the adapter and the editor
  both apply it.\<close>

definition normalizeChunk :: "jsstring \<Rightarrow> jsstring" where
  "normalizeChunk s = replaceRuns isSpaceClass 2 (replaceRuns isLineBreak 1 s)"

section \<open>The streaming source adapter\<close>

datatype WritingTone = Professional | CasualTone | FormalTone | Friendly | Creative | Academic

datatype ModifyAction =
  Shorten | Expand | Rephrase | Formal | Casual | Summarize | Improve | Brainstorm

text \<open>
  What the remote call hands to the generator: each element of \<open>result.stream\<close> is a chunk
  with its text, or the transport throws (also when the request itself fails, before any
  chunk).
\<close>

datatype chunk_event = Chunk jsstring | Fault

datatype outcome = Completed | Threw

text \<open>\<open>for (const char of cleaned)\<close>: the string iterator yields code points, a surrogate
  pair as one string of two code units.\<close>

definition isHighSurrogate :: "16 word \<Rightarrow> bool" where
  "isHighSurrogate c = (0xD800 \<le> c \<and> c \<le> 0xDBFF)"

definition isLowSurrogate :: "16 word \<Rightarrow> bool" where
  "isLowSurrogate c = (0xDC00 \<le> c \<and> c \<le> 0xDFFF)"

fun codePoints :: "jsstring \<Rightarrow> jsstring list" where
  "codePoints (a # b # s) =
     (if isHighSurrogate a \<and> isLowSurrogate b then [a, b] # codePoints s
      else [a] # codePoints (b # s))"
| "codePoints [a] = [[a]]"
| "codePoints [] = []"

text \<open>The body shared by both generators: the fragments yielded, in order, and how the
  generator ends. The catch block logs and rethrows.\<close>

fun streamLoop :: "chunk_event list \<Rightarrow> jsstring list \<times> outcome" where
  "streamLoop [] = ([], Completed)"
| "streamLoop (Chunk chunkText # rest) =
     ((if chunkText \<noteq> [] then codePoints (normalizeChunk chunkText) else [])
        @ fst (streamLoop rest),
      snd (streamLoop rest))"
| "streamLoop (Fault # rest) = ([], Threw)"

text \<open>The text and the tone or action only shape the prompt; what comes back is the
  list of events.\<close>

definition generateContinuationStream ::
  "jsstring \<Rightarrow> WritingTone \<Rightarrow> chunk_event list \<Rightarrow> jsstring list \<times> outcome" where
  "generateContinuationStream currentText tone events = streamLoop events"



text \<open>No two neighbouring characters are both white space.\<close>

fun noAdjacentSpace :: "jsstring \<Rightarrow> bool" where
  "noAdjacentSpace (a # b # s) =
     (if isSpaceClass a \<and> isSpaceClass b then False else noAdjacentSpace (b # s))"
| "noAdjacentSpace [a] = True"
| "noAdjacentSpace [] = True"

definition whitespaceNormalized :: "jsstring \<Rightarrow> bool" where
  "whitespaceNormalized s = (list_all (\<lambda>c. \<not> isLineBreak c) s \<and> noAdjacentSpace s)"

section \<open>The document engine\<close>

text \<open>
  The editor creates its document as one paragraph holding the initial text
  (\<open>schema.node("doc", null, [schema.node("paragraph", null, [schema.text(content)])])\<close>).
  This development covers the documents of that shape. ProseMirror counts positions over
  tokens: position 0 is before the paragraph, position 1 is the start of its text, a
  paragraph of \<open>n\<close> code units ends at position \<open>n + 1\<close>, and \<open>doc.content.size\<close> is
  \<open>n + 2\<close>. A cell is one code unit of text with its \<open>em\<close> mark, which is the mark
  the editor puts on generated text.
\<close>

type_synonym cell = "16 word \<times> bool"

record editorView =
  para :: "cell list"
  selFrom :: nat
  selTo :: nat

datatype pm_error =
  RangeError \<comment> \<open>ProseMirror throws: the position is beyond the document\<close>
  | OutsideParagraph \<comment> \<open>the edit reaches outside the paragraph's text, or its range is
      reversed: ProseMirror restructures the document there, beyond the shape covered\<close>

definition contentSize :: "editorView \<Rightarrow> nat" where
  "contentSize v = length (para v) + 2"

text \<open>\<open>schema.text(s, [emMark])\<close> and \<open>schema.text(s)\<close>.\<close>

definition markedText :: "jsstring \<Rightarrow> cell list" where
  "markedText s = map (\<lambda>c. (c, True)) s"

definition unmarkedText :: "jsstring \<Rightarrow> cell list" where
  "unmarkedText s = map (\<lambda>c. (c, False)) s"

definition textContent :: "editorView \<Rightarrow> jsstring" where
  "textContent v = map fst (para v)"

definition textBetween :: "editorView \<Rightarrow> nat \<Rightarrow> nat \<Rightarrow> jsstring" where
  "textBetween v from to = map fst (drop (from - 1) (take (to - 1) (para v)))"

text \<open>How a position is carried through an insertion of \<open>n\<close> code units at \<open>pos\<close> and
  through the deletion of \<open>[from, to)\<close> (the selection is mapped with the default bias,
  to the right).\<close>

definition mapInsert :: "nat \<Rightarrow> nat \<Rightarrow> nat \<Rightarrow> nat" where
  "mapInsert pos n q = (if q < pos then q else q + n)"

definition mapDelete :: "nat \<Rightarrow> nat \<Rightarrow> nat \<Rightarrow> nat" where
  "mapDelete from to q = (if q \<le> from then q else if q < to then from else q - (to - from))"

text \<open>\<open>tr.insert(pos, textNode)\<close>.\<close>

definition tr_insert :: "nat \<Rightarrow> cell list \<Rightarrow> editorView \<Rightarrow> pm_error + editorView" where
  "tr_insert pos cs v =
     (if contentSize v < pos then Inl RangeError
      else if pos < 1 \<or> length (para v) + 1 < pos then Inl OutsideParagraph
      else Inr (v\<lparr>para := take (pos - 1) (para v) @ cs @ drop (pos - 1) (para v),
                  selFrom := mapInsert pos (length cs) (selFrom v),
                  selTo := mapInsert pos (length cs) (selTo v)\<rparr>))"

text \<open>\<open>tr.delete(from, to)\<close>; an empty range makes no step at all.\<close>

definition tr_delete :: "nat \<Rightarrow> nat \<Rightarrow> editorView \<Rightarrow> pm_error + editorView" where
  "tr_delete from to v =
     (if from = to then Inr v
      else if contentSize v < from \<or> contentSize v < to then Inl RangeError
      else if from < 1 \<or> to < from \<or> length (para v) + 1 < to then Inl OutsideParagraph
      else Inr (v\<lparr>para := take (from - 1) (para v) @ drop (to - 1) (para v),
                  selFrom := mapDelete from to (selFrom v),
                  selTo := mapDelete from to (selTo v)\<rparr>))"

text \<open>\<open>tr.removeMark(from, to, schema.marks.em)\<close>: the code unit at index \<open>i\<close> lies
  between positions \<open>i + 1\<close> and \<open>i + 2\<close>; the text keeps every other property.\<close>

definition tr_removeMark :: "nat \<Rightarrow> nat \<Rightarrow> editorView \<Rightarrow> editorView" where
  "tr_removeMark from to v =
     v\<lparr>para := map (\<lambda>(i, c). if from \<le> i + 1 \<and> i + 2 \<le> to then (fst c, False) else c)
                    (enumerate 0 (para v))\<rparr>"

text \<open>\<open>tr.setSelection(TextSelection.create(tr.doc, pos))\<close>.\<close>

definition tr_setSelection :: "nat \<Rightarrow> editorView \<Rightarrow> pm_error + editorView" where
  "tr_setSelection pos v =
     (if contentSize v < pos then Inl RangeError else Inr (v\<lparr>selFrom := pos, selTo := pos\<rparr>))"

text \<open>One step of a transaction after another; a throw ends the handler.\<close>

definition andThen :: "pm_error + 'a \<Rightarrow> ('a \<Rightarrow> pm_error + 'b) \<Rightarrow> pm_error + 'b" where
  "andThen r f = (case r of Inl x \<Rightarrow> Inl x | Inr a \<Rightarrow> f a)"

section \<open>The editor component\<close>

text \<open>
  The refs and the state of \<open>Editor\<close> that the suggestion handlers read and write. The
  view is mounted (\<open>viewRef.current\<close> is set once, when the component mounts); the state
  that only places toolbars is left out.
\<close>

record editor =
  view :: editorView
  lastInsertedLength :: nat
  aiTextStartPos :: "nat option"
  selectedText :: jsstring
  selectionRange :: "(nat \<times> nat) option"
  isReplacingSelection :: bool
  originalText :: jsstring

text \<open>\<open>dispatchTransaction\<close>: the view takes the new state, and the selected text is
  remembered when the selection is longer than 3.\<close>

definition dispatchTransaction :: "editorView \<Rightarrow> editor \<Rightarrow> editor" where
  "dispatchTransaction v e =
     e\<lparr>view := v,
       selectedText :=
         (if selFrom v \<noteq> selTo v \<and> 3 < selTo v - selFrom v
          then textBetween v (selFrom v) (selTo v) else [])\<rparr>"

text \<open>The effect on \<open>apiText\<close>; \<open>None\<close> is \<open>null\<close>, and the empty string is falsy too.\<close>

definition streamEffect :: "jsstring option \<Rightarrow> editor \<Rightarrow> pm_error + editor" where
  "streamEffect apiText e =
     (case apiText of
        None \<Rightarrow> Inr (e\<lparr>lastInsertedLength := 0\<rparr>)
      | Some t \<Rightarrow>
          if t = [] then Inr (e\<lparr>lastInsertedLength := 0\<rparr>)
          else if lastInsertedLength e < length t then
            (let newChunk = normalizeChunk (drop (lastInsertedLength e) t) in
             if newChunk \<noteq> [] then
               (let insertPos =
                      (case aiTextStartPos e of
                         Some p \<Rightarrow> p + lastInsertedLength e
                       | None \<Rightarrow> selFrom (view e));
                    e1 = (if aiTextStartPos e = None
                          then e\<lparr>aiTextStartPos := Some insertPos\<rparr> else e)
                in andThen
                     (tr_insert
                        (insertPos + lastInsertedLength e
                           - (if 0 < lastInsertedLength e then lastInsertedLength e else 0))
                        (markedText newChunk) (view e1))
                     (\<lambda>v. Inr ((dispatchTransaction v e1)\<lparr>lastInsertedLength := length t\<rparr>)))
             else Inr (e\<lparr>lastInsertedLength := length t\<rparr>))
          else Inr e)"

definition handleAccept :: "editor \<Rightarrow> editor" where
  "handleAccept e =
     (let e1 = (case aiTextStartPos e of
                  Some startPos \<Rightarrow>
                    (let endPos = contentSize (view e) - 1
                     in dispatchTransaction (tr_removeMark startPos endPos (view e)) e)
                | None \<Rightarrow> e)
      in e1\<lparr>aiTextStartPos := None, isReplacingSelection := False,
            originalText := [], selectionRange := None\<rparr>)"

definition handleReject :: "editor \<Rightarrow> pm_error + editor" where
  "handleReject e =
     andThen
       (case aiTextStartPos e of
          Some startPos \<Rightarrow>
            (let endPos = contentSize (view e) - 1;
                 tr = tr_delete startPos endPos (view e);
                 tr' = (if isReplacingSelection e \<and> originalText e \<noteq> []
                        then andThen tr (tr_insert startPos (unmarkedText (originalText e)))
                        else tr)
             in andThen tr' (\<lambda>v. Inr (dispatchTransaction v e)))
        | None \<Rightarrow> Inr e)
       (\<lambda>e1. Inr (e1\<lparr>aiTextStartPos := None, lastInsertedLength := 0,
                     isReplacingSelection := False, originalText := [],
                     selectionRange := None\<rparr>))"

definition handleModify :: "ModifyAction \<Rightarrow> editor \<Rightarrow> pm_error + editor" where
  "handleModify action e =
     (case aiTextStartPos e of
        Some startPos \<Rightarrow>
          (let endPos = contentSize (view e) - 1
           in andThen (tr_delete startPos endPos (view e))
                (\<lambda>v. Inr ((dispatchTransaction v e)\<lparr>lastInsertedLength := 0\<rparr>)))
      | None \<Rightarrow> Inr e)"

definition handleSelectionAiAction :: "ModifyAction \<Rightarrow> editor \<Rightarrow> pm_error + editor" where
  "handleSelectionAiAction action e =
     (if selectedText e \<noteq> [] then
        (let from = selFrom (view e); to = selTo (view e);
             e1 = e\<lparr>selectionRange := Some (from, to), isReplacingSelection := True,
                    originalText := selectedText e\<rparr>
         in andThen (andThen (tr_delete from to (view e1)) (tr_setSelection from))
              (\<lambda>v. Inr ((dispatchTransaction v e1)
                          \<lparr>aiTextStartPos := Some from, lastInsertedLength := 0\<rparr>)))
      else Inr e)"

text \<open>The user moves the cursor or selects: a transaction that only sets the selection.\<close>

definition userSelect :: "nat \<Rightarrow> nat \<Rightarrow> editor \<Rightarrow> editor" where
  "userSelect from to e = dispatchTransaction ((view e)\<lparr>selFrom := from, selTo := to\<rparr>) e"

text \<open>The editor as it mounts on a document with the given text.\<close>

definition mountEditor :: "jsstring \<Rightarrow> editor" where
  "mountEditor content =
     \<lparr>view = \<lparr>para = unmarkedText content, selFrom = 1, selTo = 1\<rparr>,
      lastInsertedLength = 0, aiTextStartPos = None, selectedText = [],
      selectionRange = None, isReplacingSelection = False, originalText = []\<rparr>"

text \<open>
  The editor is given the text generated so far as \<open>apiText\<close> and cuts the new fragment
  off its end (\<open>apiText.slice(lastInsertedLengthRef.current)\<close>). Delivering a fragment
  therefore appends it to \<open>apiText\<close> and runs the effect; \<open>deliver fs acc\<close> delivers
  the fragments \<open>fs\<close> in order to an editor whose \<open>apiText\<close> so far is \<open>acc\<close>.
\<close>

fun deliver :: "jsstring list \<Rightarrow> jsstring \<Rightarrow> editor \<Rightarrow> pm_error + editor" where
  "deliver [] acc e = Inr e"
| "deliver (f # fs) acc e = andThen (streamEffect (Some (acc @ f)) e) (deliver fs (acc @ f))"

section \<open>The lifecycle machine\<close>

text \<open>
  Modelled from the spec: \<open>machines/editorMachine\<close> is not among the sources; \<open>App\<close>
  only sends it events and reads \<open>state.context.generatedText\<close> and
  \<open>state.context.error\<close>. The transitions are those of the table of the lifecycle
  state machine; a mode of \<open>Idle\<close> retains no session data except a surfaced error, and
  an intent with no row in the table changes nothing.
\<close>

datatype Mode = Idle | Streaming | PendingDecision | Modifying

record machine =
  mode :: Mode
  generatedText :: "jsstring option"
  error :: "jsstring option"

datatype intent =
  Generate WritingTone
  | GenerateOnSelection ModifyAction jsstring
  | FragmentArrives jsstring
  | StreamCompletes
  | StreamFails jsstring
  | Stop
  | Accept
  | Reject
  | Modify ModifyAction

fun machineStep :: "intent \<Rightarrow> machine \<Rightarrow> machine" where
  "machineStep (Generate tone) m =
     (if mode m = Idle then m\<lparr>mode := Streaming, generatedText := None, error := None\<rparr> else m)"
| "machineStep (GenerateOnSelection action text) m =
     (if mode m = Idle then m\<lparr>mode := Streaming, generatedText := None, error := None\<rparr> else m)"
| "machineStep (FragmentArrives f) m =
     (if mode m = Streaming \<or> mode m = Modifying
      then m\<lparr>generatedText := Some ((case generatedText m of None \<Rightarrow> [] | Some t \<Rightarrow> t) @ f)\<rparr>
      else m)"
| "machineStep StreamCompletes m =
     (if mode m = Streaming \<or> mode m = Modifying then m\<lparr>mode := PendingDecision\<rparr> else m)"
| "machineStep (StreamFails msg) m =
     (if mode m = Streaming \<or> mode m = Modifying
      then m\<lparr>mode := Idle, generatedText := None, error := Some msg\<rparr> else m)"
| "machineStep Stop m =
     (if mode m = Streaming
      then (case generatedText m of
              None \<Rightarrow> m\<lparr>mode := Idle\<rparr>
            | Some t \<Rightarrow> if t = [] then m\<lparr>mode := Idle, generatedText := None\<rparr>
                       else m\<lparr>mode := PendingDecision\<rparr>)
      else m)"
| "machineStep Accept m =
     (if mode m = PendingDecision then m\<lparr>mode := Idle, generatedText := None\<rparr> else m)"
| "machineStep Reject m =
     (if mode m = PendingDecision then m\<lparr>mode := Idle, generatedText := None\<rparr> else m)"
| "machineStep (Modify action) m =
     (if mode m = PendingDecision then m\<lparr>mode := Modifying, generatedText := None\<rparr> else m)"

text \<open>\<open>App\<close> passes \<open>state.context.generatedText\<close> to the editor as \<open>apiText\<close>; the
  effect runs when it changes.\<close>

definition render :: "machine \<Rightarrow> editor \<Rightarrow> pm_error + editor" where
  "render m e = streamEffect (generatedText m) e"

definition streamEvent :: "intent \<Rightarrow> machine \<times> editor \<Rightarrow> pm_error + machine \<times> editor" where
  "streamEvent i s =
     (let m' = machineStep i (fst s) in andThen (render m' (snd s)) (\<lambda>e'. Inr (m', e')))"

text \<open>What a generator yields is fed to the machine: every fragment as it arrives, then
  the completion, or the failure with the message of the error thrown.\<close>

fun feedStream ::
  "jsstring \<Rightarrow> jsstring list \<times> outcome \<Rightarrow> machine \<times> editor \<Rightarrow> pm_error + machine \<times> editor" where
  "feedStream msg ([], Completed) s = streamEvent StreamCompletes s"
| "feedStream msg ([], Threw) s = streamEvent (StreamFails msg) s"
| "feedStream msg (f # fs, out) s =
     andThen (streamEvent (FragmentArrives f) s) (feedStream msg (fs, out))"

section \<open>Whitespace normalisation\<close>

lemma replaceRuns_Nil_iff: "replaceRuns P k s = [] \<longleftrightarrow> s = []"
  by (cases s) auto

lemma normalizeChunk_Nil_iff: "normalizeChunk s = [] \<longleftrightarrow> s = []"
  by (simp add: normalizeChunk_def replaceRuns_Nil_iff)

lemma replaceRuns_linebreak_free:
  "list_all (\<lambda>c. \<not> isLineBreak c) (replaceRuns isLineBreak (Suc 0) s)"
  by (induction isLineBreak "Suc 0" s rule: replaceRuns.induct)
     (auto simp: isLineBreak_def)

lemma replaceRuns_keeps_free:
  "list_all (\<lambda>c. \<not> isLineBreak c) s \<Longrightarrow>
     list_all (\<lambda>c. \<not> isLineBreak c) (replaceRuns P k s)"
proof (induction P k s rule: replaceRuns.induct)
  case (1 P k)
  then show ?case by simp
next
  case (2 P k c s)
  have run: "list_all (\<lambda>c. \<not> isLineBreak c) (takeWhile P s)"
    using 2(3) by (auto simp: list_all_iff dest: set_takeWhileD)
  have rest: "list_all (\<lambda>c. \<not> isLineBreak c) (dropWhile P s)"
    using 2(3) by (auto simp: list_all_iff dest: set_dropWhileD)
  show ?case using 2 run rest by (auto simp: isLineBreak_def)
qed

lemma noAdjacentSpace_Cons:
  "noAdjacentSpace (a # xs) =
     ((xs = [] \<or> \<not> isSpaceClass a \<or> \<not> isSpaceClass (hd xs)) \<and> noAdjacentSpace xs)"
  by (cases xs) auto

lemma replaceRuns_head:
  "s \<noteq> [] \<Longrightarrow> \<not> P (hd s) \<Longrightarrow> replaceRuns P k s \<noteq> [] \<and> hd (replaceRuns P k s) = hd s"
  by (cases s) auto

lemma dropWhile_head: "dropWhile P s \<noteq> [] \<Longrightarrow> \<not> P (hd (dropWhile P s))"
  using hd_dropWhile by blast

lemma replaceRuns_no_adjacent: "noAdjacentSpace (replaceRuns isSpaceClass 2 s)"
proof (induction isSpaceClass "2::nat" s rule: replaceRuns.induct)
  case 1
  then show ?case by simp
next
  case (2 c s)
  let ?d = "dropWhile isSpaceClass s"
  have hd_d: "?d \<noteq> [] \<Longrightarrow> \<not> isSpaceClass (hd (replaceRuns isSpaceClass 2 ?d))"
    using replaceRuns_head[of ?d isSpaceClass 2] dropWhile_head[of isSpaceClass s] by simp
  show ?case
  proof (cases "isSpaceClass c")
    case True
    note c = this
    show ?thesis
    proof (cases "takeWhile isSpaceClass s = []")
      case True
      then show ?thesis using c 2 hd_d
        by (auto simp: noAdjacentSpace_Cons replaceRuns_Nil_iff)
    next
      case False
      then show ?thesis using c 2 hd_d
        by (cases "takeWhile isSpaceClass s")
           (auto simp: noAdjacentSpace_Cons replaceRuns_Nil_iff)
    qed
  next
    case False
    then show ?thesis using 2 by (auto simp: noAdjacentSpace_Cons)
  qed
qed

lemma normalizeChunk_normalized: "whitespaceNormalized (normalizeChunk s)"
  unfolding whitespaceNormalized_def normalizeChunk_def
  using replaceRuns_linebreak_free replaceRuns_keeps_free replaceRuns_no_adjacent
  by (simp add: numeral_2_eq_2)

lemma filter_replaceRuns:
  "(\<forall>c. P c \<longrightarrow> Q c) \<Longrightarrow> Q 0x20 \<Longrightarrow>
     filter (\<lambda>c. \<not> Q c) (replaceRuns P k s) = filter (\<lambda>c. \<not> Q c) s"
proof (induction P k s rule: replaceRuns.induct)
  case (1 P k)
  then show ?case by simp
next
  case (2 P k c s)
  have run: "filter (\<lambda>c. \<not> Q c) (takeWhile P s) = []"
    using 2(3) by (auto simp: filter_empty_conv dest: set_takeWhileD)
  have split: "filter (\<lambda>c. \<not> Q c) s =
      filter (\<lambda>c. \<not> Q c) (takeWhile P s) @ filter (\<lambda>c. \<not> Q c) (dropWhile P s)"
    by (metis filter_append takeWhile_dropWhile_id)
  show ?case
  proof (cases "P c")
    case True
    then have "Q c" using 2(3) by simp
    then show ?thesis using True 2 run split by simp
  next
    case False
    then show ?thesis using 2 by simp
  qed
qed

lemma normalizeChunk_keeps_words:
  "filter (\<lambda>c. \<not> isSpaceClass c) (normalizeChunk s) = filter (\<lambda>c. \<not> isSpaceClass c) s"
proof -
  have sub: "\<forall>c. isLineBreak c \<longrightarrow> isSpaceClass c"
    by (auto simp: isLineBreak_def isSpaceClass_def)
  have sp: "isSpaceClass 0x20" by (simp add: isSpaceClass_def)
  show ?thesis
    unfolding normalizeChunk_def
    using filter_replaceRuns[of isSpaceClass isSpaceClass 2] filter_replaceRuns[OF sub sp, of 1 s] sp
    by simp
qed








lemma replaceRuns_id_linebreak:
  "list_all (\<lambda>c. \<not> P c) s \<Longrightarrow> replaceRuns P k s = s"
  by (induction P k s rule: replaceRuns.induct) auto

section \<open>The adapter's fragments\<close>

lemma surrogate_not_space: "isHighSurrogate a \<or> isLowSurrogate a \<Longrightarrow> \<not> isSpaceClass a"
  unfolding isHighSurrogate_def isLowSurrogate_def isSpaceClass_def
  by (auto simp: word_le_nat_alt)


lemma codePoints_normalized:
  "list_all (\<lambda>c. \<not> isLineBreak c) s \<Longrightarrow> list_all whitespaceNormalized (codePoints s)"
  by (induction s rule: codePoints.induct)
     (auto simp: whitespaceNormalized_def surrogate_not_space)

lemma codePoints_nonempty: "list_all (\<lambda>f. f \<noteq> []) (codePoints s)"
  by (induction s rule: codePoints.induct) auto


lemma streamLoop_fragments_normalized:
  "list_all (\<lambda>f. f \<noteq> [] \<and> whitespaceNormalized f) (fst (streamLoop evs))"
proof (induction evs rule: streamLoop.induct)
  case 1
  then show ?case by simp
next
  case (2 chunkText rest)
  have "list_all (\<lambda>c. \<not> isLineBreak c) (normalizeChunk chunkText)"
    using normalizeChunk_normalized[of chunkText] by (simp add: whitespaceNormalized_def)
  then have "list_all whitespaceNormalized (codePoints (normalizeChunk chunkText))"
    by (rule codePoints_normalized)
  then have "list_all (\<lambda>f. f \<noteq> [] \<and> whitespaceNormalized f)
               (codePoints (normalizeChunk chunkText))"
    using codePoints_nonempty[of "normalizeChunk chunkText"] by (simp add: list_all_iff)
  then show ?case using 2 by simp
next
  case (3 rest)
  then show ?case by simp
qed




section \<open>Fragments arriving at the editor\<close>

lemma streamEffect_insert:
  assumes "lastInsertedLength e < length t"
    and "ip = (case aiTextStartPos e of Some p \<Rightarrow> p + lastInsertedLength e
               | None \<Rightarrow> selFrom (view e))"
    and "1 \<le> ip" and "ip \<le> length (para (view e)) + 1"
  shows "\<exists>e'. streamEffect (Some t) e = Inr e'
     \<and> para (view e') = take (ip - 1) (para (view e))
          @ markedText (normalizeChunk (drop (lastInsertedLength e) t))
          @ drop (ip - 1) (para (view e))
     \<and> aiTextStartPos e' = Some (case aiTextStartPos e of Some p \<Rightarrow> p
                                 | None \<Rightarrow> selFrom (view e))
     \<and> lastInsertedLength e' = length t
     \<and> isReplacingSelection e' = isReplacingSelection e
     \<and> originalText e' = originalText e
     \<and> selectionRange e' = selectionRange e"
proof -
  have t: "t \<noteq> []" using assms(1) by auto
  have nc: "normalizeChunk (drop (lastInsertedLength e) t) \<noteq> []"
    using assms(1) by (simp add: normalizeChunk_Nil_iff)
  show ?thesis
    using assms t nc
    by (cases "aiTextStartPos e")
       (auto simp: streamEffect_def Let_def andThen_def tr_insert_def contentSize_def
          dispatchTransaction_def)
qed

lemma streamEffect_same:
  "lastInsertedLength e = length t \<Longrightarrow> streamEffect (Some t) e = Inr e"
  by (simp add: streamEffect_def)

lemma splice_take:
  "n \<le> length xs \<Longrightarrow> take (n + length ys) (take n xs @ ys @ drop n xs) = take n xs @ ys"
  by simp

lemma splice_drop:
  "n \<le> length xs \<Longrightarrow> drop (n + length ys) (take n xs @ ys @ drop n xs) = drop n xs"
  by simp

lemma deliver_inserts:
  assumes "lastInsertedLength e = length acc"
    and "aiTextStartPos e = None \<Longrightarrow> acc = []"
    and "ip = (case aiTextStartPos e of Some p \<Rightarrow> p + lastInsertedLength e
               | None \<Rightarrow> selFrom (view e))"
    and "1 \<le> ip" and "ip \<le> length (para (view e)) + 1"
    and "list_all (\<lambda>f. length (normalizeChunk f) = length f) fs"
  shows "\<exists>e'. deliver fs acc e = Inr e'
     \<and> para (view e') = take (ip - 1) (para (view e))
          @ markedText (concat (map normalizeChunk fs)) @ drop (ip - 1) (para (view e))
     \<and> lastInsertedLength e' = length acc + length (concat fs)
     \<and> aiTextStartPos e' = (if concat fs = [] then aiTextStartPos e else Some (ip - length acc))
     \<and> isReplacingSelection e' = isReplacingSelection e
     \<and> originalText e' = originalText e
     \<and> selectionRange e' = selectionRange e"
  using assms
proof (induction fs arbitrary: acc e ip)
  case Nil
  then show ?case by (simp add: markedText_def)
next
  case (Cons f fs)
  show ?case
  proof (cases "f = []")
    case True
    have step: "streamEffect (Some (acc @ f)) e = Inr e"
      using True Cons.prems(1) by (simp add: streamEffect_same)
    obtain e' where e': "deliver fs acc e = Inr e'"
      "para (view e') = take (ip - 1) (para (view e))
          @ markedText (concat (map normalizeChunk fs)) @ drop (ip - 1) (para (view e))"
      "lastInsertedLength e' = length acc + length (concat fs)"
      "aiTextStartPos e' = (if concat fs = [] then aiTextStartPos e else Some (ip - length acc))"
      "isReplacingSelection e' = isReplacingSelection e"
      "originalText e' = originalText e"
      "selectionRange e' = selectionRange e"
      using Cons.IH[of e acc ip] Cons.prems by auto
    have nf: "normalizeChunk f = []" using True by (simp add: normalizeChunk_Nil_iff)
    show ?thesis using True step e' nf by (simp add: andThen_def)
  next
    case False
    let ?t = "acc @ f"
    have lt: "lastInsertedLength e < length ?t" using False Cons.prems(1) by simp
    have dr: "drop (lastInsertedLength e) ?t = f" using Cons.prems(1) by simp
    obtain e1 where e1: "streamEffect (Some ?t) e = Inr e1"
      "para (view e1) = take (ip - 1) (para (view e)) @ markedText (normalizeChunk f)
          @ drop (ip - 1) (para (view e))"
      "aiTextStartPos e1 = Some (case aiTextStartPos e of Some p \<Rightarrow> p
                                 | None \<Rightarrow> selFrom (view e))"
      "lastInsertedLength e1 = length ?t"
      "isReplacingSelection e1 = isReplacingSelection e"
      "originalText e1 = originalText e"
      "selectionRange e1 = selectionRange e"
      using streamEffect_insert[OF lt Cons.prems(3) Cons.prems(4) Cons.prems(5)] dr by auto
    have lenf: "length (normalizeChunk f) = length f" using Cons.prems(6) by simp
    have rest: "list_all (\<lambda>f. length (normalizeChunk f) = length f) fs"
      using Cons.prems(6) by simp
    have base: "(case aiTextStartPos e of Some p \<Rightarrow> p | None \<Rightarrow> selFrom (view e))
                  = ip - length acc"
      using Cons.prems(1,2,3) by (cases "aiTextStartPos e") auto
    have accle: "length acc \<le> ip" using Cons.prems(1,2,3) by (cases "aiTextStartPos e") auto
    define ip1 where "ip1 = ip + length f"
    have ip1: "ip1 = (case aiTextStartPos e1 of Some p \<Rightarrow> p + lastInsertedLength e1
               | None \<Rightarrow> selFrom (view e1))"
      using e1(3,4) base accle by (simp add: ip1_def)
    have lo: "1 \<le> ip1" using Cons.prems(4) by (simp add: ip1_def)
    have hi: "ip1 \<le> length (para (view e1)) + 1"
      using Cons.prems(4,5) e1(2) lenf by (simp add: ip1_def markedText_def)
    have none: "aiTextStartPos e1 = None \<Longrightarrow> ?t = []" using e1(3) by simp
    obtain e' where e': "deliver fs ?t e1 = Inr e'"
      "para (view e') = take (ip1 - 1) (para (view e1))
          @ markedText (concat (map normalizeChunk fs)) @ drop (ip1 - 1) (para (view e1))"
      "lastInsertedLength e' = length ?t + length (concat fs)"
      "aiTextStartPos e' = (if concat fs = [] then aiTextStartPos e1 else Some (ip1 - length ?t))"
      "isReplacingSelection e' = isReplacingSelection e1"
      "originalText e' = originalText e1"
      "selectionRange e' = selectionRange e1"
      using Cons.IH[OF e1(4) none ip1 lo hi rest] by auto
    have n: "ip - 1 \<le> length (para (view e))" using Cons.prems(5) by simp
    have idx: "ip1 - 1 = (ip - 1) + length (markedText (normalizeChunk f))"
      using Cons.prems(4) lenf by (simp add: ip1_def markedText_def)
    have tk: "take (ip1 - 1) (para (view e1)) = take (ip - 1) (para (view e))
          @ markedText (normalizeChunk f)"
      unfolding idx e1(2) using n by simp
    have dp: "drop (ip1 - 1) (para (view e1)) = drop (ip - 1) (para (view e))"
      unfolding idx e1(2) using n by simp
    have st: "ip1 - length ?t = ip - length acc" using accle by (simp add: ip1_def)
    show ?thesis
      using False e1 e' tk dp st base
      by (simp add: andThen_def markedText_def)
  qed
qed

lemma replaceRuns_id_space:
  "noAdjacentSpace s \<Longrightarrow> replaceRuns isSpaceClass 2 s = s"
proof (induction isSpaceClass "2::nat" s rule: replaceRuns.induct)
  case 1
  then show ?case by simp
next
  case (2 c s)
  show ?case
  proof (cases "isSpaceClass c")
    case True
    have tw: "takeWhile isSpaceClass s = []"
      using True 2(3) by (cases s) (auto split: if_splits)
    then have dw: "dropWhile isSpaceClass s = s"
      by (metis append_Nil takeWhile_dropWhile_id)
    have "noAdjacentSpace s" using 2(3) by (simp add: noAdjacentSpace_Cons)
    then show ?thesis using True tw dw 2(1) by simp
  next
    case False
    have "noAdjacentSpace s" using 2(3) by (simp add: noAdjacentSpace_Cons)
    then show ?thesis using False 2(2) by simp
  qed
qed

lemma normalizeChunk_fixed: "whitespaceNormalized s \<Longrightarrow> normalizeChunk s = s"
  by (simp add: whitespaceNormalized_def normalizeChunk_def replaceRuns_id_linebreak
        replaceRuns_id_space)

lemma map_normalizeChunk_fixed:
  "list_all whitespaceNormalized fs \<Longrightarrow> map normalizeChunk fs = fs"
  by (induction fs) (auto simp: normalizeChunk_fixed)

lemma removeMark_text: "map fst (para (tr_removeMark from to v)) = map fst (para v)"
  by (auto simp: tr_removeMark_def intro!: nth_equalityI simp: nth_enumerate_eq)

lemma handleAccept_text: "textContent (view (handleAccept e)) = textContent (view e)"
  by (cases "aiTextStartPos e")
     (simp_all add: handleAccept_def textContent_def Let_def dispatchTransaction_def removeMark_text)

lemma textBetween_textContent:
  "textBetween v from to = drop (from - 1) (take (to - 1) (textContent v))"
  by (simp add: textBetween_def textContent_def drop_map take_map)

lemma textBetween_splice:
  "1 \<le> p \<Longrightarrow> p \<le> length xs + 1 \<Longrightarrow>
     drop (p - 1) (take (p + length ys - 1) (map fst (take (p - 1) xs @ markedText ys @ drop (p - 1) xs))) = ys"
  by (simp add: markedText_def comp_def)

section \<open>Appending a fragment\<close>


text \<open>The definitions that one run of the effect on a concrete document unfolds.\<close>

lemmas run = userSelect_def mountEditor_def dispatchTransaction_def js_def unmarkedText_def
        markedText_def normalizeChunk_def isLineBreak_def isSpaceClass_def textBetween_def
        streamEffect_def andThen_def tr_insert_def contentSize_def mapInsert_def Let_def


section \<open>The text of an accepted session\<close>

lemma length_concat_normalized:
  "list_all (\<lambda>f. length (normalizeChunk f) = length f) fs \<Longrightarrow>
     length (concat (map normalizeChunk fs)) = length (concat fs)"
  by (induction fs) auto

text \<open>
  C2, as amended. The editor normalises the whitespace of every fragment it is given
  before it inserts it. For a session whose fragments keep their length under that
  normalisation, delivered in order to an editor with a valid anchor, the plain text of
  the session's range \<open>[startPosition, startPosition + emittedLength)\<close> after accept
  is the concatenation, in arrival order, of the normalised fragments; it is the
  concatenation of the fragments themselves when these are already whitespace-normalised.
\<close>

theorem accepted_text_is_concatenation:
  assumes "lastInsertedLength e = 0"
    and "startPosition = (case aiTextStartPos e of Some p \<Rightarrow> p | None \<Rightarrow> selFrom (view e))"
    and "1 \<le> startPosition" and "startPosition \<le> length (para (view e)) + 1"
    and "list_all (\<lambda>f. length (normalizeChunk f) = length f) fragments"
  shows "\<exists>e'. deliver fragments [] e = Inr e'
     \<and> lastInsertedLength e' = length (concat fragments)
     \<and> textBetween (view (handleAccept e')) startPosition (startPosition + lastInsertedLength e')
           = concat (map normalizeChunk fragments)
     \<and> (list_all whitespaceNormalized fragments \<longrightarrow>
          textBetween (view (handleAccept e')) startPosition (startPosition + lastInsertedLength e')
            = concat fragments)"
proof -
  have ip: "startPosition = (case aiTextStartPos e of Some p \<Rightarrow> p + lastInsertedLength e
               | None \<Rightarrow> selFrom (view e))"
    using assms(1,2) by (cases "aiTextStartPos e") auto
  have l0: "lastInsertedLength e = length ([]::jsstring)" using assms(1) by simp
  obtain e' where e': "deliver fragments [] e = Inr e'"
     "para (view e') = take (startPosition - 1) (para (view e))
          @ markedText (concat (map normalizeChunk fragments))
          @ drop (startPosition - 1) (para (view e))"
     "lastInsertedLength e' = length (concat fragments)"
    using deliver_inserts[OF l0 _ ip assms(3) assms(4) assms(5)] by auto
  let ?ys = "concat (map normalizeChunk fragments)"
  have len: "length ?ys = length (concat fragments)"
    using assms(5) by (rule length_concat_normalized)
  have "textBetween (view (handleAccept e')) startPosition (startPosition + lastInsertedLength e')
      = drop (startPosition - 1) (take (startPosition + length ?ys - 1)
          (map fst (take (startPosition - 1) (para (view e)) @ markedText ?ys
             @ drop (startPosition - 1) (para (view e)))))"
    using e'(2,3) len
    by (simp only: textBetween_textContent handleAccept_text) (simp add: textContent_def)
  also have "\<dots> = ?ys"
    using assms(3,4) by (rule textBetween_splice)
  finally have tb: "textBetween (view (handleAccept e')) startPosition
       (startPosition + lastInsertedLength e') = ?ys" .
  show ?thesis using e'(1,3) tb by (auto simp: map_normalizeChunk_fixed)
qed

theorem accepted_text_is_concatenation_witness:
  "\<exists>e'. deliver [js ''it '', js ''is sunny''] [] (mountEditor (js ''ab'')) = Inr e'
     \<and> textBetween (view (handleAccept e')) 1 (1 + lastInsertedLength e') = js ''it is sunny''"
  using accepted_text_is_concatenation
    [of "mountEditor (js ''ab'')" 1 "[js ''it '', js ''is sunny'']"]
  by (auto simp: mountEditor_def js_def unmarkedText_def normalizeChunk_def isLineBreak_def
        isSpaceClass_def whitespaceNormalized_def)

text \<open>A fragment with two spaces in a row arrives as \<open>a  b\<close> and is accepted as
  \<open>a b\<close>.\<close>

theorem accepted_text_counterexample:
  "map_sum id (\<lambda>e. textBetween (view (handleAccept e)) 1 (1 + lastInsertedLength e))
      (deliver [js ''a  b''] [] (mountEditor [])) = Inr (js ''a b'')
   \<and> js ''a b'' \<noteq> concat [js ''a  b'']"
  by (simp add: mountEditor_def js_def unmarkedText_def normalizeChunk_def isLineBreak_def
        isSpaceClass_def streamEffect_def andThen_def tr_insert_def contentSize_def
        dispatchTransaction_def markedText_def handleAccept_def tr_removeMark_def
        textBetween_def enumerate_eq_zip upt_rec)

section \<open>Selection capture\<close>

lemma dispatchTransaction_selectedText:
  "3 < selTo v - selFrom v \<Longrightarrow>
     view (dispatchTransaction v e) = v
     \<and> selectedText (dispatchTransaction v e) = textBetween v (selFrom v) (selTo v)"
  by (auto simp: dispatchTransaction_def)

lemma handleSelectionAiAction_result:
  assumes "selectedText e = textBetween (view e) (selFrom (view e)) (selTo (view e))"
    and "1 \<le> selFrom (view e)" and "selTo (view e) \<le> length (para (view e)) + 1"
    and "3 < selTo (view e) - selFrom (view e)"
  shows "\<exists>e'. handleSelectionAiAction action e = Inr e'
     \<and> originalText e' = textBetween (view e) (selFrom (view e)) (selTo (view e))
     \<and> originalText e' \<noteq> []
     \<and> andThen (tr_delete (selFrom (view e)) (selTo (view e)) (view e))
           (tr_setSelection (selFrom (view e))) = Inr (view e')
     \<and> para (view e') =
           take (selFrom (view e) - 1) (para (view e)) @ drop (selTo (view e) - 1) (para (view e))
     \<and> selFrom (view e') = selFrom (view e) \<and> selTo (view e') = selFrom (view e)
     \<and> aiTextStartPos e' = Some (selFrom (view e))
     \<and> lastInsertedLength e' = 0
     \<and> isReplacingSelection e'
     \<and> selectionRange e' = Some (selFrom (view e), selTo (view e))"
proof -
  let ?v = "view e"
  have ne: "textBetween ?v (selFrom ?v) (selTo ?v) \<noteq> []"
    using assms(2,3,4) by (simp add: textBetween_def)
  have del: "tr_delete (selFrom ?v) (selTo ?v) ?v =
      Inr (?v\<lparr>para := take (selFrom ?v - 1) (para ?v) @ drop (selTo ?v - 1) (para ?v),
            selFrom := selFrom ?v, selTo := selFrom ?v\<rparr>)"
    using assms(2,3,4) by (simp add: tr_delete_def contentSize_def mapDelete_def)
  show ?thesis
    using ne del assms
    by (simp add: handleSelectionAiAction_def Let_def andThen_def tr_setSelection_def
          contentSize_def dispatchTransaction_def)
qed

text \<open>
  C6. The selected text that the editor remembers is refreshed by every dispatched
  transaction, so that it is the text of the current selection whenever this is longer
  than 3. When an AI action is invoked on such a selection, inside the paragraph, the
  handler records as \<open>originalText\<close> the text of that range
  in the document as it is before the deletion, and this text is not empty; it dispatches
  one transaction, made of the deletion of the range and the cursor set at its start;
  and it ends with the anchor at the deletion point, nothing emitted, and the session
  marked as replacing a selection. The handler is one synchronous transition, so no other
  edit comes between the deletion and the anchor.
\<close>

theorem selection_capture_single_edit:
  assumes "selectedText e = textBetween (view e) (selFrom (view e)) (selTo (view e))"
    and "1 \<le> selFrom (view e)" and "selTo (view e) \<le> length (para (view e)) + 1"
    and "3 < selTo (view e) - selFrom (view e)"
  shows "\<exists>e'. handleSelectionAiAction action e = Inr e'
     \<and> originalText e' = textBetween (view e) (selFrom (view e)) (selTo (view e))
     \<and> originalText e' \<noteq> []
     \<and> andThen (tr_delete (selFrom (view e)) (selTo (view e)) (view e))
           (tr_setSelection (selFrom (view e))) = Inr (view e')
     \<and> para (view e') =
           take (selFrom (view e) - 1) (para (view e)) @ drop (selTo (view e) - 1) (para (view e))
     \<and> selFrom (view e') = selFrom (view e) \<and> selTo (view e') = selFrom (view e)
     \<and> aiTextStartPos e' = Some (selFrom (view e))
     \<and> lastInsertedLength e' = 0
     \<and> isReplacingSelection e'
     \<and> selectionRange e' = Some (selFrom (view e), selTo (view e))"
  using handleSelectionAiAction_result[OF assms] .

theorem selection_capture_single_edit_witness:
  "\<exists>e'. handleSelectionAiAction Expand (userSelect 1 12 (mountEditor (js ''hello world!!''))) = Inr e'
     \<and> originalText e' = js ''hello world''
     \<and> para (view e') = unmarkedText (js ''!!'')
     \<and> aiTextStartPos e' = Some 1"
  using selection_capture_single_edit
    [of "userSelect 1 12 (mountEditor (js ''hello world!!''))" Expand]
  by (auto simp: userSelect_def mountEditor_def js_def unmarkedText_def textBetween_def
        dispatchTransaction_def)

section \<open>Decisions without an anchor\<close>

text \<open>
  C9, as amended. When no anchor is stored (\<open>aiTextStartPos\<close> is \<open>null\<close>: no
  selection was replaced and no non-empty fragment was inserted since the last accept or
  reject), accept, reject and modify dispatch nothing: the view, with its text, marks and selection, is the same
  afterwards. Accept and reject clear the session refs (reject also the emitted
  length); modify changes nothing at all.
\<close>

theorem no_anchor_no_edit:
  assumes "aiTextStartPos e = None"
  shows "handleAccept e =
           e\<lparr>isReplacingSelection := False, originalText := [], selectionRange := None\<rparr>
     \<and> handleReject e =
           Inr (e\<lparr>lastInsertedLength := 0, isReplacingSelection := False,
                  originalText := [], selectionRange := None\<rparr>)
     \<and> handleModify action e = Inr e
     \<and> view (handleAccept e) = view e"
  using assms by (simp add: handleAccept_def handleReject_def handleModify_def andThen_def)

theorem no_anchor_no_edit_witness:
  "aiTextStartPos (mountEditor (js ''abcd'')) = None
   \<and> view (handleAccept (mountEditor (js ''abcd''))) = view (mountEditor (js ''abcd''))
   \<and> map_sum id view (handleReject (mountEditor (js ''abcd''))) = Inr (view (mountEditor (js ''abcd'')))
   \<and> handleModify Shorten (mountEditor (js ''abcd'')) = Inr (mountEditor (js ''abcd''))"
  using no_anchor_no_edit[of "mountEditor (js ''abcd'')" Shorten]
  by (simp add: mountEditor_def)

section \<open>The anchor\<close>

lemma streamEffect_keeps_anchor:
  "aiTextStartPos e = Some p \<Longrightarrow> streamEffect apiText e = Inr e' \<Longrightarrow> aiTextStartPos e' = Some p"
  by (auto simp: streamEffect_def Let_def andThen_def dispatchTransaction_def
        split: option.splits if_splits sum.splits)

lemma deliver_keeps_anchor:
  "aiTextStartPos e = Some p \<Longrightarrow> deliver fs acc e = Inr e' \<Longrightarrow> aiTextStartPos e' = Some p"
proof (induction fs arbitrary: acc e)
  case Nil
  then show ?case by simp
next
  case (Cons f fs)
  then show ?case
    by (cases "streamEffect (Some (acc @ f)) e")
       (auto simp: andThen_def dest: streamEffect_keeps_anchor)
qed

text \<open>
  C7, as amended. The anchor is assigned by the handler of an AI action on a selection,
  at the start of the selection and before any fragment arrives, or, while no anchor is
  stored, by the effect on the first fragment that makes \<open>apiText\<close> longer than what
  was inserted, at the start of the current selection. A stored anchor is changed neither
  by the effect (whatever \<open>apiText\<close> is), nor by any sequence of fragments, nor by modify,
  which retains it; accept and reject clear it.
\<close>

theorem anchor_assigned_once:
  "(aiTextStartPos ea = Some p \<and> streamEffect apiText ea = Inr ea' \<longrightarrow> aiTextStartPos ea' = Some p)
   \<and> (aiTextStartPos ea = Some p \<and> deliver fs acc ea = Inr ed' \<longrightarrow> aiTextStartPos ed' = Some p)
   \<and> (aiTextStartPos eb = Some q \<and> handleModify action eb = Inr eb' \<longrightarrow> aiTextStartPos eb' = Some q)
   \<and> (selectedText ec \<noteq> [] \<and> handleSelectionAiAction action ec = Inr ec'
        \<longrightarrow> aiTextStartPos ec' = Some (selFrom (view ec)))
   \<and> (aiTextStartPos en = None \<and> streamEffect apiText' en = Inr en'
        \<longrightarrow> aiTextStartPos en' =
             (case apiText' of None \<Rightarrow> None
              | Some t \<Rightarrow> if lastInsertedLength en < length t then Some (selFrom (view en))
                          else None))
   \<and> aiTextStartPos (handleAccept ef) = None
   \<and> (handleReject eg = Inr eg' \<longrightarrow> aiTextStartPos eg' = None)"
proof (intro conjI impI)
  assume "aiTextStartPos ea = Some p \<and> streamEffect apiText ea = Inr ea'"
  then show "aiTextStartPos ea' = Some p" using streamEffect_keeps_anchor by blast
next
  assume "aiTextStartPos ea = Some p \<and> deliver fs acc ea = Inr ed'"
  then show "aiTextStartPos ed' = Some p" using deliver_keeps_anchor by blast
next
  assume "aiTextStartPos eb = Some q \<and> handleModify action eb = Inr eb'"
  then show "aiTextStartPos eb' = Some q"
    by (auto simp: handleModify_def Let_def andThen_def dispatchTransaction_def
          split: sum.splits)
next
  assume "selectedText ec \<noteq> [] \<and> handleSelectionAiAction action ec = Inr ec'"
  then show "aiTextStartPos ec' = Some (selFrom (view ec))"
    by (auto simp: handleSelectionAiAction_def Let_def andThen_def dispatchTransaction_def
          split: sum.splits)
next
  assume a: "aiTextStartPos en = None \<and> streamEffect apiText' en = Inr en'"
  show "aiTextStartPos en' =
             (case apiText' of None \<Rightarrow> None
              | Some t \<Rightarrow> if lastInsertedLength en < length t then Some (selFrom (view en))
                          else None)"
  proof (cases apiText')
    case None
    then show ?thesis using a by (auto simp: streamEffect_def)
  next
    case (Some t)
    show ?thesis
    proof (cases "lastInsertedLength en < length t")
      case True
      then have "normalizeChunk (drop (lastInsertedLength en) t) \<noteq> []" "t \<noteq> []"
        by (auto simp: normalizeChunk_Nil_iff)
      then show ?thesis using a Some True
        by (auto simp: streamEffect_def Let_def andThen_def dispatchTransaction_def
              split: sum.splits)
    next
      case False
      then show ?thesis using a Some
        by (auto simp: streamEffect_def Let_def split: if_splits)
    qed
  qed
next
  show "aiTextStartPos (handleAccept ef) = None"
    by (simp add: handleAccept_def Let_def)
next
  assume "handleReject eg = Inr eg'"
  then show "aiTextStartPos eg' = None"
    by (auto simp: handleReject_def Let_def andThen_def split: option.splits sum.splits)
qed

theorem anchor_assigned_once_witness:
  "aiTextStartPos ((userSelect 3 3 (mountEditor (js ''abcd'')))\<lparr>aiTextStartPos := Some 3\<rparr>) = Some 3
   \<and> aiTextStartPos (projr (streamEffect (Some (js ''XY''))
         ((userSelect 3 3 (mountEditor (js ''abcd'')))\<lparr>aiTextStartPos := Some 3\<rparr>))) = Some 3
   \<and> aiTextStartPos (projr (deliver [js ''XY'', js ''Z''] []
         ((userSelect 3 3 (mountEditor (js ''abcd'')))\<lparr>aiTextStartPos := Some 3\<rparr>))) = Some 3
   \<and> aiTextStartPos (projr (handleModify Shorten
         ((userSelect 3 3 (mountEditor (js ''abcd'')))\<lparr>aiTextStartPos := Some 3\<rparr>))) = Some 3
   \<and> selectedText (userSelect 1 5 (mountEditor (js ''abcd''))) \<noteq> []
   \<and> aiTextStartPos (projr (handleSelectionAiAction Shorten
         (userSelect 1 5 (mountEditor (js ''abcd''))))) = Some 1
   \<and> aiTextStartPos (userSelect 3 3 (mountEditor (js ''abcd''))) = None
   \<and> aiTextStartPos (projr (streamEffect (Some (js ''XY''))
         (userSelect 3 3 (mountEditor (js ''abcd''))))) = Some 3
   \<and> aiTextStartPos (handleAccept
         ((userSelect 3 3 (mountEditor (js ''abcd'')))\<lparr>aiTextStartPos := Some 3\<rparr>)) = None
   \<and> aiTextStartPos (projr (handleReject
         ((userSelect 3 3 (mountEditor (js ''abcd'')))\<lparr>aiTextStartPos := Some 3\<rparr>))) = None"
  using anchor_assigned_once
    [of "(userSelect 3 3 (mountEditor (js ''abcd'')))\<lparr>aiTextStartPos := Some 3\<rparr>" 3
        "Some (js ''XY'')"
        "projr (streamEffect (Some (js ''XY''))
           ((userSelect 3 3 (mountEditor (js ''abcd'')))\<lparr>aiTextStartPos := Some 3\<rparr>))"
        "[js ''XY'', js ''Z'']" "[]"
        "projr (deliver [js ''XY'', js ''Z''] []
           ((userSelect 3 3 (mountEditor (js ''abcd'')))\<lparr>aiTextStartPos := Some 3\<rparr>))"
        "(userSelect 3 3 (mountEditor (js ''abcd'')))\<lparr>aiTextStartPos := Some 3\<rparr>" 3
        Shorten
        "projr (handleModify Shorten
           ((userSelect 3 3 (mountEditor (js ''abcd'')))\<lparr>aiTextStartPos := Some 3\<rparr>))"
        "userSelect 1 5 (mountEditor (js ''abcd''))"
        "projr (handleSelectionAiAction Shorten (userSelect 1 5 (mountEditor (js ''abcd''))))"
        "userSelect 3 3 (mountEditor (js ''abcd''))"
        "Some (js ''XY'')"
        "projr (streamEffect (Some (js ''XY'')) (userSelect 3 3 (mountEditor (js ''abcd''))))"
        "(userSelect 3 3 (mountEditor (js ''abcd'')))\<lparr>aiTextStartPos := Some 3\<rparr>"
        "(userSelect 3 3 (mountEditor (js ''abcd'')))\<lparr>aiTextStartPos := Some 3\<rparr>"
        "projr (handleReject
           ((userSelect 3 3 (mountEditor (js ''abcd'')))\<lparr>aiTextStartPos := Some 3\<rparr>))"]
  by (simp add: handleAccept_def handleReject_def tr_removeMark_def userSelect_def mountEditor_def js_def unmarkedText_def normalizeChunk_def
        isLineBreak_def isSpaceClass_def streamEffect_def andThen_def tr_insert_def
        tr_delete_def tr_setSelection_def contentSize_def dispatchTransaction_def
        markedText_def handleModify_def handleSelectionAiAction_def textBetween_def
        mapInsert_def mapDelete_def Let_def)

text \<open>An AI action on the selection \<open>hello world\<close> stores the anchor at once, with
  nothing emitted and no fragment delivered.\<close>

theorem anchor_assigned_once_counterexample:
  "map_sum id (\<lambda>e. (aiTextStartPos e, lastInsertedLength e, para (view e)))
     (handleSelectionAiAction Expand (userSelect 1 12 (mountEditor (js ''hello world''))))
   = Inr (Some 1, 0, [])"
  by (simp add: userSelect_def mountEditor_def js_def unmarkedText_def andThen_def
        tr_delete_def tr_setSelection_def contentSize_def dispatchTransaction_def
        handleSelectionAiAction_def textBetween_def mapDelete_def Let_def)

section \<open>A stream that fails\<close>

lemma andThen_assoc: "andThen (andThen r f) g = andThen r (\<lambda>a. andThen (f a) g)"
  by (cases r) (simp_all add: andThen_def)

lemma streamEffect_None: "streamEffect None e = Inr (e\<lparr>lastInsertedLength := 0\<rparr>)"
  by (simp add: streamEffect_def)

lemma feedStream_threw:
  "mode m = Streaming \<or> mode m = Modifying \<Longrightarrow>
     feedStream msg (fs, Threw) (m, e) =
       andThen (deliver fs (case generatedText m of None \<Rightarrow> [] | Some t \<Rightarrow> t) e)
         (\<lambda>e'. Inr (m\<lparr>mode := Idle, generatedText := None, error := Some msg\<rparr>,
                    e'\<lparr>lastInsertedLength := 0\<rparr>))"
proof (induction fs arbitrary: m e)
  case Nil
  then show ?case
    by (auto simp: streamEvent_def render_def streamEffect_None andThen_def)
next
  case (Cons f fs)
  let ?acc = "case generatedText m of None \<Rightarrow> [] | Some t \<Rightarrow> t"
  let ?m1 = "m\<lparr>generatedText := Some (?acc @ f)\<rparr>"
  have step: "streamEvent (FragmentArrives f) (m, e) =
      andThen (streamEffect (Some (?acc @ f)) e) (\<lambda>e'. Inr (?m1, e'))"
    using Cons.prems by (auto simp: streamEvent_def render_def)
  have m1: "mode ?m1 = Streaming \<or> mode ?m1 = Modifying" using Cons.prems by simp
  show ?case
    unfolding feedStream.simps step andThen_assoc
    by (cases "streamEffect (Some (?acc @ f)) e")
       (simp_all add: andThen_def Cons.IH[OF m1])
qed

lemma fragments_keep_length:
  "list_all (\<lambda>f. f \<noteq> [] \<and> whitespaceNormalized f) fs \<Longrightarrow>
     list_all (\<lambda>f. length (normalizeChunk f) = length f) fs"
  by (induction fs) (auto simp: normalizeChunk_fixed)

lemma fragments_fixed:
  "list_all (\<lambda>f. f \<noteq> [] \<and> whitespaceNormalized f) fs \<Longrightarrow> map normalizeChunk fs = fs"
  by (induction fs) (auto simp: normalizeChunk_fixed)

text \<open>
  C8. A continuation is requested while the machine is idle, the generator yields some
  fragments and then throws. With the anchor (or, when none is stored, the cursor) in the
  paragraph, the run ends without an error of the document engine, the machine is back in
  \<open>Idle\<close> with the error's message surfaced, and the document is the one before the
  request with every yielded fragment inserted at the anchor, in order, each code unit
  still carrying the \<open>em\<close> mark: nothing of the partial text was deleted or changed.
\<close>

theorem stream_failure_keeps_partial_text:
  assumes "mode m = Idle"
    and "snd (generateContinuationStream currentText tone evs) = Threw"
    and "startPosition = (case aiTextStartPos e of Some p \<Rightarrow> p | None \<Rightarrow> selFrom (view e))"
    and "1 \<le> startPosition" and "startPosition \<le> length (para (view e)) + 1"
  shows "\<exists>m' e'.
       andThen (streamEvent (Generate tone) (m, e))
         (feedStream msg (generateContinuationStream currentText tone evs)) = Inr (m', e')
     \<and> mode m' = Idle \<and> error m' = Some msg
     \<and> para (view e') = take (startPosition - 1) (para (view e))
          @ markedText (concat (fst (generateContinuationStream currentText tone evs)))
          @ drop (startPosition - 1) (para (view e))"
proof -
  let ?fs = "fst (streamLoop evs)"
  let ?m1 = "m\<lparr>mode := Streaming, generatedText := None, error := None\<rparr>"
  let ?e1 = "e\<lparr>lastInsertedLength := 0\<rparr>"
  have gen: "streamEvent (Generate tone) (m, e) = Inr (?m1, ?e1)"
    using assms(1) by (simp add: streamEvent_def render_def streamEffect_None andThen_def)
  have out: "streamLoop evs = (?fs, Threw)"
    using assms(2) by (simp add: generateContinuationStream_def prod_eq_iff)
  have feed: "feedStream msg (streamLoop evs) (?m1, ?e1) =
      andThen (deliver ?fs [] ?e1)
        (\<lambda>e'. Inr (?m1\<lparr>mode := Idle, generatedText := None, error := Some msg\<rparr>,
                   e'\<lparr>lastInsertedLength := 0\<rparr>))"
    using feedStream_threw[of ?m1 msg ?fs ?e1] out by simp
  have norm: "list_all (\<lambda>f. f \<noteq> [] \<and> whitespaceNormalized f) ?fs"
    by (rule streamLoop_fragments_normalized)
  have ip: "startPosition = (case aiTextStartPos ?e1 of Some p \<Rightarrow> p + lastInsertedLength ?e1
               | None \<Rightarrow> selFrom (view ?e1))"
    using assms(3) by (cases "aiTextStartPos e") auto
  have l0: "lastInsertedLength ?e1 = length ([]::jsstring)" by simp
  have hi: "startPosition \<le> length (para (view ?e1)) + 1" using assms(5) by simp
  obtain e' where e': "deliver ?fs [] ?e1 = Inr e'"
     "para (view e') = take (startPosition - 1) (para (view ?e1))
          @ markedText (concat (map normalizeChunk ?fs))
          @ drop (startPosition - 1) (para (view ?e1))"
    using deliver_inserts[OF l0 _ ip assms(4) hi fragments_keep_length[OF norm]] by auto
  show ?thesis
    using gen feed e' fragments_fixed[OF norm]
    by (simp add: andThen_def generateContinuationStream_def)
qed

theorem stream_failure_keeps_partial_text_witness:
  "\<exists>m' e'.
       andThen (streamEvent (Generate Professional)
                  (\<lparr>mode = Idle, generatedText = None, error = None\<rparr>,
                   userSelect 3 3 (mountEditor (js ''ab''))))
         (feedStream (js ''quota'')
            (generateContinuationStream (js ''ab'') Professional [Chunk (js ''c  d''), Fault]))
         = Inr (m', e')
     \<and> mode m' = Idle \<and> error m' = Some (js ''quota'')
     \<and> para (view e') = unmarkedText (js ''ab'') @ markedText (js ''c d'')"
  using stream_failure_keeps_partial_text
    [of "\<lparr>mode = Idle, generatedText = None, error = None\<rparr>" "js ''ab''" Professional
        "[Chunk (js ''c  d''), Fault]" 3 "userSelect 3 3 (mountEditor (js ''ab''))" "js ''quota''"]
  by (auto simp: userSelect_def mountEditor_def js_def unmarkedText_def normalizeChunk_def
        isLineBreak_def isSpaceClass_def isHighSurrogate_def isLowSurrogate_def
        generateContinuationStream_def dispatchTransaction_def markedText_def)

section \<open>Rejecting a suggestion that ends the document\<close>

text \<open>
  When the replaced selection reached the end of the document, the suggestion is the last
  thing in it and the range that reject deletes is the range of the suggestion: the text
  of the document is then restored exactly.
\<close>

lemma tr_delete_to_end:
  "1 \<le> a \<Longrightarrow> a \<le> length (para v) + 1 \<Longrightarrow>
     \<exists>v'. tr_delete a (contentSize v - 1) v = Inr v' \<and> para v' = take (a - 1) (para v)"
  by (cases "a = length (para v) + 1") (simp_all add: tr_delete_def contentSize_def)

lemma tr_insert_at_end:
  "1 \<le> a \<Longrightarrow> a = length (para v) + 1 \<Longrightarrow>
     \<exists>v'. tr_insert a cs v = Inr v' \<and> para v' = para v @ cs"
  by (simp add: tr_insert_def contentSize_def)

lemma handleReject_replacing:
  assumes "aiTextStartPos e = Some a" and "isReplacingSelection e" and "originalText e \<noteq> []"
    and "1 \<le> a" and "a \<le> length (para (view e)) + 1"
  shows "\<exists>e'. handleReject e = Inr e'
     \<and> para (view e') = take (a - 1) (para (view e)) @ unmarkedText (originalText e)
     \<and> aiTextStartPos e' = None \<and> lastInsertedLength e' = 0"
proof -
  obtain v' where v': "tr_delete a (contentSize (view e) - 1) (view e) = Inr v'"
      "para v' = take (a - 1) (para (view e))"
    using tr_delete_to_end[OF assms(4,5)] by blast
  have "a = length (para v') + 1" using v'(2) assms(4,5) by simp
  then obtain v'' where v'': "tr_insert a (unmarkedText (originalText e)) v' = Inr v''"
      "para v'' = para v' @ unmarkedText (originalText e)"
    using tr_insert_at_end[OF assms(4), of v'] by blast
  show ?thesis
    using assms(1,2,3) v' v''
    by (simp add: handleReject_def Let_def andThen_def dispatchTransaction_def)
qed

lemma reject_restores_selection_at_document_end:
  assumes "selectedText e = textBetween (view e) (selFrom (view e)) (selTo (view e))"
    and "1 \<le> selFrom (view e)" and "selTo (view e) = length (para (view e)) + 1"
    and "3 < selTo (view e) - selFrom (view e)"
    and "list_all (\<lambda>f. length (normalizeChunk f) = length f) fs"
  shows "\<exists>e1 e2 e3. handleSelectionAiAction action e = Inr e1
     \<and> deliver fs [] e1 = Inr e2
     \<and> handleReject e2 = Inr e3
     \<and> textContent (view e3) = textContent (view e)
     \<and> aiTextStartPos e3 = None \<and> lastInsertedLength e3 = 0"
proof -
  let ?v = "view e"
  let ?a = "selFrom ?v"
  have le: "selTo ?v \<le> length (para ?v) + 1" using assms(3) by simp
  obtain e1 where e1: "handleSelectionAiAction action e = Inr e1"
      "originalText e1 = textBetween ?v ?a (selTo ?v)"
      "originalText e1 \<noteq> []"
      "para (view e1) = take (?a - 1) (para ?v) @ drop (selTo ?v - 1) (para ?v)"
      "aiTextStartPos e1 = Some ?a" "lastInsertedLength e1 = 0" "isReplacingSelection e1"
    using handleSelectionAiAction_result[OF assms(1) assms(2) le assms(4), of action] by auto
  have p1: "para (view e1) = take (?a - 1) (para ?v)" using e1(4) assms(3) by simp
  have l0: "lastInsertedLength e1 = length ([]::jsstring)" using e1(6) by simp
  have ip: "?a = (case aiTextStartPos e1 of Some p \<Rightarrow> p + lastInsertedLength e1
               | None \<Rightarrow> selFrom (view e1))"
    using e1(5,6) by simp
  have hi: "?a \<le> length (para (view e1)) + 1" using p1 assms(2,3,4) by simp
  obtain e2 where e2: "deliver fs [] e1 = Inr e2"
      "para (view e2) = take (?a - 1) (para (view e1))
          @ markedText (concat (map normalizeChunk fs)) @ drop (?a - 1) (para (view e1))"
      "isReplacingSelection e2 = isReplacingSelection e1"
      "originalText e2 = originalText e1"
    using deliver_inserts[OF l0 _ ip assms(2) hi assms(5)] e1(5) by auto
  have a2: "aiTextStartPos e2 = Some ?a"
    using deliver_keeps_anchor[OF e1(5) e2(1)] .
  have la: "?a - 1 \<le> length (para ?v)" using assms(3,4) by simp
  have hi2: "?a \<le> length (para (view e2)) + 1" using e2(2) p1 la assms(2) by simp
  have tk: "take (?a - 1) (para (view e2)) = take (?a - 1) (para ?v)"
    using e2(2) p1 la by simp
  obtain e3 where e3: "handleReject e2 = Inr e3"
      "para (view e3) = take (?a - 1) (para (view e2)) @ unmarkedText (originalText e2)"
      "aiTextStartPos e3 = None" "lastInsertedLength e3 = 0"
    using handleReject_replacing[OF a2 _ _ assms(2) hi2] e2(3,4) e1(3,7) by auto
  have textEq: "map fst (take (?a - 1) (para ?v) @ unmarkedText (textBetween ?v ?a (selTo ?v)))
       = map fst (para ?v)"
  proof -
    have "map fst (unmarkedText (textBetween ?v ?a (selTo ?v))) = map fst (drop (?a - 1) (para ?v))"
      using assms(3) by (simp add: unmarkedText_def textBetween_def comp_def)
    then have "map fst (take (?a - 1) (para ?v) @ unmarkedText (textBetween ?v ?a (selTo ?v)))
        = map fst (take (?a - 1) (para ?v)) @ map fst (drop (?a - 1) (para ?v))"
      by (simp only: map_append)
    also have "\<dots> = map fst (take (?a - 1) (para ?v) @ drop (?a - 1) (para ?v))"
      by (simp only: map_append)
    also have "\<dots> = map fst (para ?v)" by (simp only: append_take_drop_id)
    finally show ?thesis .
  qed
  show ?thesis
    using e1(1) e2(1) e3 tk e2(4) e1(2) textEq
    by (simp add: textContent_def)
qed

section \<open>Decisions on a suggestion inside the text\<close>

text \<open>The definitions that a run of the editor on a concrete document unfolds.\<close>

lemmas ev = userSelect_def mountEditor_def js_def unmarkedText_def normalizeChunk_def
        isLineBreak_def isSpaceClass_def streamEffect_def andThen_def tr_insert_def
        tr_delete_def tr_setSelection_def contentSize_def dispatchTransaction_def
        markedText_def handleModify_def handleSelectionAiAction_def textBetween_def
        mapInsert_def mapDelete_def Let_def handleReject_def handleAccept_def
        tr_removeMark_def textContent_def enumerate_eq_zip upt_rec

text \<open>
  C1. In the document \<open>hello world!!\<close> the selection \<open>hello world\<close> is replaced by a
  suggestion made of the fragments \<open>it \<close> and \<open>is sunny\<close>: the document reads
  \<open>it is sunny!!\<close>, the anchor is 1 and 11 code units were emitted. Reject then deletes
  from the anchor to the end of the document, not the 11 code units of the suggestion:
  what is left is \<open>hello world\<close>, without the two code units that followed the
  selection.
\<close>

theorem reject_deletes_to_document_end:
  "map_sum id (\<lambda>e. (textContent (view e), aiTextStartPos e, lastInsertedLength e))
     (andThen (handleSelectionAiAction Expand (userSelect 1 12 (mountEditor (js ''hello world!!''))))
        (deliver [js ''it '', js ''is sunny''] []))
     = Inr (js ''it is sunny!!'', Some 1, 11)
   \<and> map_sum id (\<lambda>e. textContent (view e))
     (andThen
        (andThen (handleSelectionAiAction Expand (userSelect 1 12 (mountEditor (js ''hello world!!''))))
           (deliver [js ''it '', js ''is sunny''] []))
        handleReject)
     = Inr (js ''hello world'')"
  by (simp add: ev)

text \<open>
  C3. In the document \<open>abcd\<close> with the cursor after \<open>ab\<close>, the fragment \<open>XY\<close> gives
  \<open>abXYcd\<close> with the anchor at 3. Modify keeps the anchor and resets the emitted
  length, but deletes from the anchor to the end of the document: \<open>ab\<close> is left. The
  first fragment of the new stream, \<open>ok\<close>, is then inserted at the anchor, which gives
  \<open>abok\<close>.
\<close>

theorem modify_deletes_to_document_end:
  "map_sum id (\<lambda>e. (textContent (view e), aiTextStartPos e, lastInsertedLength e))
     (deliver [js ''XY''] [] (userSelect 3 3 (mountEditor (js ''abcd''))))
     = Inr (js ''abXYcd'', Some 3, 2)
   \<and> map_sum id (\<lambda>e. (textContent (view e), aiTextStartPos e, lastInsertedLength e))
     (andThen (deliver [js ''XY''] [] (userSelect 3 3 (mountEditor (js ''abcd''))))
        (handleModify Shorten))
     = Inr (js ''ab'', Some 3, 0)
   \<and> map_sum id (\<lambda>e. textContent (view e))
     (andThen
        (andThen (deliver [js ''XY''] [] (userSelect 3 3 (mountEditor (js ''abcd''))))
           (handleModify Shorten))
        (deliver [js ''ok''] []))
     = Inr (js ''abok'')"
  by (simp add: ev)

text \<open>
  C5. In a document \<open>abcd\<close> whose last two code units \<open>cd\<close> are in italics, with the
  cursor after \<open>ab\<close>, the fragment \<open>XY\<close> is inserted at the anchor 3. Accept keeps
  the text but removes the \<open>em\<close> mark from the anchor to the end of the document:
  \<open>cd\<close>, which is outside the range of the session, loses its mark too.
\<close>

theorem accept_unmarks_to_document_end:
  "map_sum id (\<lambda>e. (para (view e), aiTextStartPos e, lastInsertedLength e))
     (deliver [js ''XY''] []
        ((mountEditor [])\<lparr>view := \<lparr>para = unmarkedText (js ''ab'') @ markedText (js ''cd''),
                                     selFrom = 3, selTo = 3\<rparr>\<rparr>))
     = Inr (unmarkedText (js ''ab'') @ markedText (js ''XYcd''), Some 3, 2)
   \<and> map_sum id (\<lambda>e. para (view (handleAccept e)))
     (deliver [js ''XY''] []
        ((mountEditor [])\<lparr>view := \<lparr>para = unmarkedText (js ''ab'') @ markedText (js ''cd''),
                                     selFrom = 3, selTo = 3\<rparr>\<rparr>))
     = Inr (unmarkedText (js ''abXYcd''))"
  by (simp add: ev)

text \<open>After an AI action on the selection \<open>hello world\<close>, which was the whole text,
  the document is empty, the anchor is stored and nothing was emitted. Reject then puts
  \<open>hello world\<close> back: the document is not left as it was.\<close>

theorem no_fragment_decision_counterexample:
  "map_sum id (\<lambda>e. (textContent (view e), aiTextStartPos e, lastInsertedLength e))
     (handleSelectionAiAction Expand (userSelect 1 12 (mountEditor (js ''hello world''))))
     = Inr ([], Some 1, 0)
   \<and> map_sum id (\<lambda>e. textContent (view e))
     (andThen (handleSelectionAiAction Expand (userSelect 1 12 (mountEditor (js ''hello world''))))
        handleReject)
     = Inr (js ''hello world'')"
  by (simp add: ev)

end
